theory Spec2Isabelle
  imports Main
begin

section \<open>Python values used by the assembler\<close>

text \<open>
  The assembler of \<^verbatim>\<open>Scripts/assembler.py\<close> works on Python strings. A string is
  modelled as a list of characters with code points below 256. Exceptions are values of
  the type \<open>error\<close>; a function that can raise returns \<open>error + result\<close>.
  \<open>ParseError\<close> carries the two attributes its constructor stores, the line and the
  line number (which may be \<open>None\<close>); the log file its constructor writes is outside
  the model, as are the files \<open>main\<close> reads and writes.
\<close>

datatype error =
    IndexError
  | KeyError string
  | TypeError
  | ParseError string "int option"

text \<open>\<open>str(x)\<close> for a value that is a string or \<open>None\<close>.\<close>

definition py_str :: "string option \<Rightarrow> string" where
  "py_str x = (case x of None \<Rightarrow> ''None'' | Some s \<Rightarrow> s)"

text \<open>\<open>s.startswith(p)\<close>: the literal \<open>p\<close> matches at the start of \<open>s\<close>.\<close>

fun startswith :: "string \<Rightarrow> string \<Rightarrow> bool" where
  "startswith s [] = True"
| "startswith [] (p # ps) = False"
| "startswith (c # cs) (p # ps) = (c = p \<and> startswith cs ps)"

subsection \<open>Decimal and binary rendering\<close>

definition digit_char :: "nat \<Rightarrow> char" where
  "digit_char d = char_of (48 + d)"

text \<open>\<open>str(n)\<close> for a natural number: its decimal digits.\<close>

fun str_nat :: "nat \<Rightarrow> string" where
  "str_nat n = (if n < 10 then [digit_char n] else str_nat (n div 10) @ [digit_char (n mod 10)])"

text \<open>The binary digits of a natural number, most significant first (\<open>0\<close> is \<open>''0''\<close>).\<close>

fun bin_digits :: "nat \<Rightarrow> string" where
  "bin_digits n = (if n < 2 then [digit_char n] else bin_digits (n div 2) @ [digit_char (n mod 2)])"

declare str_nat.simps [simp del]
declare bin_digits.simps [simp del]

definition zfill :: "nat \<Rightarrow> string \<Rightarrow> string" where
  "zfill w s = replicate (w - length s) (CHR ''0'') @ s"

text \<open>
  \<open>format(n, '016b')\<close>: binary, zero-padded to a width of at least 16; the padding goes
  between the sign and the digits, and a longer number is not truncated.
\<close>

definition format016b :: "int \<Rightarrow> string" where
  "format016b n =
     (if n < 0 then CHR ''-'' # zfill 15 (bin_digits (nat (- n)))
      else zfill 16 (bin_digits (nat n)))"

subsection \<open>\<open>int(s)\<close>\<close>

text \<open>
  \<open>int(s)\<close> on a string: surrounding whitespace is dropped, then an optional sign, then
  decimal digits, where single underscores may stand between two digits. Anything else
  raises \<open>ValueError\<close>, here \<open>None\<close>. The whitespace \<open>int\<close> accepts is tab, line feed,
  vertical tab, form feed, carriage return, space, and of the code points above 127 the
  next-line and no-break-space characters. The interpreter also refuses, with the same
  error, a number of more than \<open>int_max_str_digits\<close> digits (its default, 4300).
\<close>

definition int_space :: "char \<Rightarrow> bool" where
  "int_space c = (c \<in> set [CHR 0x09, CHR 0x0A, CHR 0x0B, CHR 0x0C, CHR 0x0D, CHR 0x20,
                            CHR 0x85, CHR 0xA0])"

definition is_digit :: "char \<Rightarrow> bool" where
  "is_digit c = (c \<in> set ''0123456789'')"

definition digit_val :: "char \<Rightarrow> nat" where
  "digit_val c = of_char c - 48"

definition int_max_str_digits :: nat where
  "int_max_str_digits = 4300"

definition strip :: "string \<Rightarrow> string" where
  "strip s = rev (dropWhile int_space (rev (dropWhile int_space s)))"

text \<open>The digits after the first one, with the value read so far.\<close>

fun digits_value :: "string \<Rightarrow> nat \<Rightarrow> nat option" where
  "digits_value [] acc = Some acc"
| "digits_value (c # cs) acc =
     (if is_digit c then digits_value cs (10 * acc + digit_val c)
      else if c = CHR ''_'' then
        (case cs of
           [] \<Rightarrow> None
         | d # ds \<Rightarrow> if is_digit d then digits_value ds (10 * acc + digit_val d) else None)
      else None)"

definition unsigned_value :: "string \<Rightarrow> nat option" where
  "unsigned_value u =
     (case u of
        [] \<Rightarrow> None
      | c # r \<Rightarrow>
          if is_digit c \<and> length (filter is_digit u) \<le> int_max_str_digits
          then digits_value r (digit_val c) else None)"

definition py_int :: "string \<Rightarrow> int option" where
  "py_int s =
     (case strip s of
        [] \<Rightarrow> None
      | c # r \<Rightarrow>
          if c = CHR ''-'' then map_option (\<lambda>v. - int v) (unsigned_value r)
          else if c = CHR ''+'' then map_option int (unsigned_value r)
          else map_option int (unsigned_value (c # r)))"

section \<open>The sanitizer\<close>

text \<open>
  \<open>_sanitizeline\<close> is \<open>re.sub(r'\s', '', re.split(r'//', line)[0])\<close>: the text before the
  first \<open>//\<close>, with every whitespace character removed. \<open>\s\<close> on a Python string is the
  Unicode whitespace; below 256 these are the twelve characters of \<open>is_space\<close>.
\<close>

definition is_space :: "char \<Rightarrow> bool" where
  "is_space c = (c \<in> set [CHR 0x09, CHR 0x0A, CHR 0x0B, CHR 0x0C, CHR 0x0D,
                           CHR 0x1C, CHR 0x1D, CHR 0x1E, CHR 0x1F, CHR 0x20,
                           CHR 0x85, CHR 0xA0])"

fun before_comment :: "string \<Rightarrow> string" where
  "before_comment (a # b # cs) =
     (if a = CHR ''/'' \<and> b = CHR ''/'' then [] else a # before_comment (b # cs))"
| "before_comment cs = cs"

definition sanitizeline :: "string \<Rightarrow> string" where
  "sanitizeline ln = filter (\<lambda>c. \<not> is_space c) (before_comment ln)"

section \<open>The compute-instruction grammar\<close>

text \<open>
  \<open>code_parse\<close> matches the line, from its start, against
  \<^verbatim>\<open>((AMD|AD|AM|MD|A|M|D)=)?(D\|A|...|-1|1|0?)(;(JGT|JEQ|JGE|JLT|JNE|JLE|JMP))?\<close>.
  Python's matcher tries the alternatives of a group from left to right and takes the
  first with which the rest of the pattern still matches. Every part of this pattern can
  match the empty string, so the rest always matches: the match never fails, and
  \<^item> group 2 is the first destination alternative that is followed by \<open>=\<close>, or unset;
  \<^item> group 3 is the first computation alternative found at that position; its last
    alternative \<open>0?\<close> matches \<open>0\<close> or else the empty string;
  \<^item> group 5 is the first jump alternative found after a \<open>;\<close>, or unset.
  Text after the match is ignored (\<open>re.match\<close> does not anchor the end).
\<close>

definition re_dest :: "string list" where
  "re_dest = [''AMD'', ''AD'', ''AM'', ''MD'', ''A'', ''M'', ''D'']"

definition re_comp :: "string list" where
  "re_comp = [''D|A'', ''D&A'', ''A-D'', ''D-A'', ''D+A'', ''A-1'', ''D-1'', ''A+1'', ''D+1'',
              ''D|M'', ''D&M'', ''M-D'', ''D-M'', ''D+M'', ''M-1'', ''M+1'', ''-M'', ''!M'', ''M'',
              ''-A'', ''-D'', ''!A'', ''!D'', ''A'', ''D'', ''-1'', ''1'', ''0'']"

definition re_jmp :: "string list" where
  "re_jmp = [''JGT'', ''JEQ'', ''JGE'', ''JLT'', ''JNE'', ''JLE'', ''JMP'']"

text \<open>
  \<open>re_alt alts suffix s\<close>: the first alternative \<open>a\<close> of \<open>alts\<close> such that \<open>s\<close> starts with
  \<open>a\<close> followed by \<open>suffix\<close>, with the text left after both.
\<close>

fun re_alt :: "string list \<Rightarrow> string \<Rightarrow> string \<Rightarrow> (string \<times> string) option" where
  "re_alt [] suffix s = None"
| "re_alt (a # alts) suffix s =
     (if startswith s (a @ suffix) then Some (a, drop (length (a @ suffix)) s)
      else re_alt alts suffix s)"

record re_groups =
  group2 :: "string option"
  group3 :: string
  group5 :: "string option"

definition re_line :: "string \<Rightarrow> re_groups" where
  "re_line ln =
     (let (g2, s1) = (case re_alt re_dest ''='' ln of
                        Some (a, r) \<Rightarrow> (Some a, r)
                      | None \<Rightarrow> (None, ln));
          (g3, s2) = (case re_alt re_comp [] s1 of
                        Some (a, r) \<Rightarrow> (a, r)
                      | None \<Rightarrow> ([], s1));
          g5 = (case s2 of
                  [] \<Rightarrow> None
                | c # r \<Rightarrow> if c = CHR '';'' then map_option fst (re_alt re_jmp [] r) else None)
      in \<lparr>group2 = g2, group3 = g3, group5 = g5\<rparr>)"

definition comp_table :: "(string \<times> string) list" where
  "comp_table =
     [(''0'', ''1110101010''), (''1'', ''1110111111''), (''-1'', ''1110111010''),
      (''D'', ''1110001100''), (''A'', ''1110110000''), (''!D'', ''1110001101''),
      (''!A'', ''1110110001''), (''-D'', ''1110001111''), (''-A'', ''1110110011''),
      (''D+1'', ''1110011111''), (''A+1'', ''1110110111''), (''D-1'', ''1110001110''),
      (''A-1'', ''1110110010''), (''D+A'', ''1110000010''), (''D-A'', ''1110010011''),
      (''A-D'', ''1110000111''), (''D&A'', ''1110000000''), (''D|A'', ''1110010101''),
      (''M'', ''1111110000''), (''!M'', ''1111110001''), (''-M'', ''1111110011''),
      (''M+1'', ''1111110111''), (''M-1'', ''1111110010''), (''D+M'', ''1111000010''),
      (''D-M'', ''1111010011''), (''M-D'', ''1111000111''), (''D&M'', ''1111000000''),
      (''D|M'', ''1111010101'')]"

definition dest_table :: "(string \<times> string) list" where
  "dest_table =
     [(''None'', ''000''), (''M'', ''001''), (''D'', ''010''), (''MD'', ''011''),
      (''A'', ''100''), (''AM'', ''101''), (''AD'', ''110''), (''AMD'', ''111'')]"

definition jmp_table :: "(string \<times> string) list" where
  "jmp_table =
     [(''None'', ''000''), (''JGT'', ''001''), (''JEQ'', ''010''), (''JGE'', ''011''),
      (''JLT'', ''100''), (''JNE'', ''101''), (''JLE'', ''110''), (''JMP'', ''111'')]"

text \<open>\<open>d[k]\<close> on a dictionary literal: a missing key raises \<open>KeyError\<close>.\<close>

definition getitem :: "(string \<times> string) list \<Rightarrow> string \<Rightarrow> error + string" where
  "getitem d k = (case map_of d k of None \<Rightarrow> Inl (KeyError k) | Some v \<Rightarrow> Inr v)"

definition code_parse :: "string \<Rightarrow> error + (string \<times> string option \<times> string)" where
  "code_parse ln =
     (let grouped_c = re_line ln in
      case getitem dest_table (py_str (group2 grouped_c)) of
        Inl e \<Rightarrow> Inl e
      | Inr dest \<Rightarrow>
          (case (if group3 grouped_c \<noteq> []
                 then map_sum id Some (getitem comp_table (py_str (Some (group3 grouped_c))))
                 else Inr None) of
             Inl e \<Rightarrow> Inl e
           | Inr comp' \<Rightarrow>
               (case getitem jmp_table (py_str (group5 grouped_c)) of
                  Inl e \<Rightarrow> Inl e
                | Inr jmp \<Rightarrow> Inr (dest, comp', jmp))))"

section \<open>The symbol table\<close>

record symboltable =
  lines :: "string list"
  table :: "string \<rightharpoonup> string"
  used :: int

text \<open>
  \<open>resolve\<close> returns the stored value; on \<open>KeyError\<close> it increments \<open>used\<close>, stores
  \<open>format(used, '016b')\<close> under the label and returns it. The updated object is returned
  with the value.
\<close>

definition resolve :: "symboltable \<Rightarrow> string \<Rightarrow> string \<times> symboltable" where
  "resolve self label =
     (case table self label of
        Some binary \<Rightarrow> (binary, self)
      | None \<Rightarrow>
          (let self1 = self\<lparr>used := used self + 1\<rparr>;
               self2 = self1\<lparr>table := (table self1)(label \<mapsto> format016b (used self1))\<rparr>
           in (the (table self2 label), self2)))"

definition sanitizeasm :: "string list \<Rightarrow> string list" where
  "sanitizeasm lns = filter (\<lambda>sane_line. sane_line \<noteq> []) (map sanitizeline lns)"

text \<open>The table before the scan: \<open>R0\<close> to \<open>R15\<close>, then the seven reserved names.\<close>

definition seed_table :: "string \<rightharpoonup> string" where
  "seed_table =
     (fold (\<lambda>i t. t(''R'' @ str_nat i \<mapsto> format016b (int i))) [0..<16] Map.empty)
       (''SP'' \<mapsto> format016b 0, ''LCL'' \<mapsto> format016b 1, ''ARG'' \<mapsto> format016b 2,
        ''THIS'' \<mapsto> format016b 3, ''THAT'' \<mapsto> format016b 4,
        ''SCREEN'' \<mapsto> format016b 16384, ''KBD'' \<mapsto> format016b 24576)"

text \<open>
  The first condition of both \<open>inittable\<close> and \<open>subclass\<close> for a label:
  \<open>line[0] == '(' and line[-1] == ')'\<close>, on a line that is not empty.
\<close>

definition is_label :: "string \<Rightarrow> bool" where
  "is_label ln = (hd ln = CHR ''('' \<and> last ln = CHR '')'')"

text \<open>
  The scan of \<open>inittable\<close>, \<open>for i, line in enumerate(lines)\<close>: \<open>i\<close> is the index of the
  line, \<open>c_idx\<close> the number of lines so far that are not labels, \<open>c_lines\<close> their indices.
  \<open>line[0]\<close> on an empty line raises \<open>IndexError\<close>. \<open>line[1:-1]\<close> is the line without its
  first and last character.
\<close>

fun scan :: "string list \<Rightarrow> nat \<Rightarrow> (string \<rightharpoonup> string) \<Rightarrow> int \<Rightarrow> nat list
               \<Rightarrow> error + ((string \<rightharpoonup> string) \<times> nat list)" where
  "scan [] i tbl c_idx c_lines = Inr (tbl, c_lines)"
| "scan (ln # rest) i tbl c_idx c_lines =
     (if ln = [] then Inl IndexError
      else if is_label ln
      then scan rest (i + 1) (tbl(butlast (tl ln) \<mapsto> format016b c_idx)) c_idx c_lines
      else scan rest (i + 1) tbl (c_idx + 1) (c_lines @ [i]))"

definition inittable :: "string list \<Rightarrow> error + symboltable" where
  "inittable lns =
     (case scan lns 0 seed_table 0 [] of
        Inl e \<Rightarrow> Inl e
      | Inr (tbl, c_lines) \<Rightarrow>
          Inr \<lparr>lines = map (\<lambda>c_line. lns ! c_line) c_lines, table = tbl, used = 15\<rparr>)"

text \<open>The constructor \<open>symboltable(lines)\<close>.\<close>

definition symboltable_init :: "string list \<Rightarrow> error + symboltable" where
  "symboltable_init lns = inittable (sanitizeasm lns)"

section \<open>The instruction encoder\<close>

record parseline =
  line :: string
  line_loc :: "int option"
  type :: "string option"
  binary :: string

text \<open>
  \<open>address_parse\<close>: when \<open>int(line)\<close> raises \<open>ValueError\<close> and no symbol table is given,
  the source evaluates \<open>ParseError(line, self.line_loc, type="a-type")\<close>. The constructor
  of \<open>ParseError\<close> is \<open>__init__(self, line, line_loc, path='./log.txt', itype='Unknown')\<close>:
  it has no parameter \<open>type\<close>, so the call itself raises \<open>TypeError\<close> and no \<open>ParseError\<close>
  is made. The symbol table, which \<open>resolve\<close> may update, is returned with the result.
\<close>

definition address_parse ::
  "string \<Rightarrow> int option \<Rightarrow> symboltable option \<Rightarrow> error + (string \<times> symboltable option)" where
  "address_parse ln loc symbolics =
     (case py_int ln of
        Some n \<Rightarrow> Inr (format016b n, symbolics)
      | None \<Rightarrow>
          (case symbolics of
             Some st \<Rightarrow> (case resolve st ln of (b, st') \<Rightarrow> Inr (b, Some st'))
           | None \<Rightarrow> Inl TypeError))"

text \<open>
  \<open>subclass\<close>, here \<open>subclass_line\<close>, calls \<open>code_parse\<close> first and then tests
  \<open>line[0]\<close>, which raises \<open>IndexError\<close> on the empty string, before any other branch.
  \<open>elif comp\<close> holds for a string that is not empty.
\<close>

definition subclass_line ::
  "string \<Rightarrow> int option \<Rightarrow> symboltable option
     \<Rightarrow> error + ((string option \<times> string) \<times> symboltable option)" where
  "subclass_line ln loc symbolics =
     (case code_parse ln of
        Inl e \<Rightarrow> Inl e
      | Inr (dest, comp', jmp) \<Rightarrow>
          if ln = [] then Inl IndexError
          else if hd ln = CHR ''@'' then
            (case address_parse (tl ln) loc symbolics of
               Inl e \<Rightarrow> Inl e
             | Inr (b, symbolics') \<Rightarrow> Inr ((Some ''a_type'', b), symbolics'))
          else if (case comp' of None \<Rightarrow> False | Some c \<Rightarrow> c \<noteq> []) then
            Inr ((Some ''c_type'', the comp' @ dest @ jmp), symbolics)
          else if hd ln = CHR ''('' \<and> last ln = CHR '')'' then Inr ((None, []), symbolics)
          else if ln = [] then Inr ((None, []), symbolics)
          else Inl (ParseError ln loc))"

text \<open>The constructor \<open>parseline(line, line_loc, symbolics)\<close>.\<close>

definition parseline_init ::
  "string \<Rightarrow> int option \<Rightarrow> symboltable option \<Rightarrow> error + (parseline \<times> symboltable option)" where
  "parseline_init ln loc symbolics =
     (case subclass_line ln loc symbolics of
        Inl e \<Rightarrow> Inl e
      | Inr ((t, b), symbolics') \<Rightarrow>
          Inr (\<lparr>line = sanitizeline ln, line_loc = loc, type = t, binary = b\<rparr>, symbolics'))"

section \<open>The instruction forms of the specification\<close>

text \<open>
  The compute instruction \<open>[dest=]comp[;jump]\<close> of the specification, written out from its
  three parts; an absent destination or jump is \<open>None\<close>.
\<close>

definition c_instruction :: "string option \<Rightarrow> string \<Rightarrow> string option \<Rightarrow> string" where
  "c_instruction d c j =
     (case d of None \<Rightarrow> [] | Some a \<Rightarrow> a @ ''='') @ c @
     (case j of None \<Rightarrow> [] | Some b \<Rightarrow> CHR '';'' # b)"

text \<open>
  The number a string of binary digits stands for, most significant digit first: the
  reading of the 16-character instruction words of the specification.
\<close>

definition bin_value :: "string \<Rightarrow> nat" where
  "bin_value s = foldl (\<lambda>acc c. 2 * acc + digit_val c) 0 s"

section \<open>Runs of the symbol table\<close>

text \<open>
  A run calls \<open>resolve\<close> any number of times on the table it has built; \<open>resolves\<close> is the
  table after the calls for a list of names, in order. The real instructions of a
  sanitized source are its lines that are not labels, and the names it declares are the
  inner texts of its label lines.
\<close>

fun resolves :: "symboltable \<Rightarrow> string list \<Rightarrow> symboltable" where
  "resolves st [] = st"
| "resolves st (name # names) = resolves (snd (resolve st name)) names"

definition instructions :: "string list \<Rightarrow> string list" where
  "instructions lns = filter (\<lambda>ln. \<not> is_label ln) lns"

definition declared :: "string list \<Rightarrow> string list" where
  "declared lns = map (\<lambda>ln. butlast (tl ln)) (filter is_label lns)"

section \<open>Evaluation of the encoder on single lines\<close>

lemmas parse_defs = subclass_line_def code_parse_def re_line_def re_dest_def re_comp_def
  re_jmp_def getitem_def py_str_def dest_table_def comp_table_def jmp_table_def

lemma sanitize_spaced: "sanitizeline ''D = D + 1'' = ''D=D+1''"
  by (simp add: sanitizeline_def is_space_def)

lemma sanitize_Memory: "sanitizeline ''Memory=Address'' = ''Memory=Address''"
  by (simp add: sanitizeline_def is_space_def)

lemma py_int_foo: "py_int ''foo'' = None"
  by (simp add: py_int_def strip_def int_space_def unsigned_value_def is_digit_def)

text \<open>
  C9. The line \<open>Memory=Address\<close> is no instruction, yet the grammar finds the computation
  \<open>M\<close> at its start: the encoder raises nothing and returns a compute instruction with the
  binary \<open>1111110000000000\<close>, whatever the line number and the symbol table.
\<close>

theorem spurious_match_is_c_type:
  "parseline_init ''Memory=Address'' loc symbolics =
     Inr (\<lparr>line = ''Memory=Address'', line_loc = loc, type = Some ''c_type'',
           binary = ''1111110000000000''\<rparr>, symbolics)"
  by (simp add: parseline_init_def sanitize_Memory parse_defs)

text \<open>
  C10. \<open>parseline\<close> stores the sanitized line but classifies and encodes the raw argument:
  for every line its result is that of \<open>subclass\<close> on the raw line, with the sanitized
  line stored beside it. On the raw line \<open>D = D + 1\<close> and on its sanitized form the stored
  lines are equal (\<open>D=D+1\<close>) and the binaries differ.
\<close>

theorem parseline_not_sanitized:
  "parseline_init ln loc symbolics =
     map_sum id (\<lambda>((t, b), s). (\<lparr>line = sanitizeline ln, line_loc = loc, type = t, binary = b\<rparr>, s))
       (subclass_line ln loc symbolics)
   \<and> parseline_init ''D = D + 1'' loc symbolics =
     Inr (\<lparr>line = ''D=D+1'', line_loc = loc, type = Some ''c_type'',
           binary = ''1110001100000000''\<rparr>, symbolics)
   \<and> parseline_init (sanitizeline ''D = D + 1'') loc symbolics =
     Inr (\<lparr>line = ''D=D+1'', line_loc = loc, type = Some ''c_type'',
           binary = ''1110011111010000''\<rparr>, symbolics)
   \<and> ''1110001100000000'' \<noteq> ''1110011111010000''"
proof -
  have "parseline_init ln loc symbolics =
     map_sum id (\<lambda>((t, b), s). (\<lparr>line = sanitizeline ln, line_loc = loc, type = t, binary = b\<rparr>, s))
       (subclass_line ln loc symbolics)"
    by (simp add: parseline_init_def split: sum.splits prod.splits)
  moreover have "parseline_init ''D = D + 1'' loc symbolics =
     Inr (\<lparr>line = ''D=D+1'', line_loc = loc, type = Some ''c_type'',
           binary = ''1110001100000000''\<rparr>, symbolics)"
    by (simp add: parseline_init_def sanitize_spaced parse_defs)
  moreover have "parseline_init (sanitizeline ''D = D + 1'') loc symbolics =
     Inr (\<lparr>line = ''D=D+1'', line_loc = loc, type = Some ''c_type'',
           binary = ''1110011111010000''\<rparr>, symbolics)"
    by (simp add: parseline_init_def sanitize_spaced sanitizeline_def is_space_def parse_defs)
  ultimately show ?thesis by simp
qed

section \<open>The grammar match\<close>

lemmas mem_list = list.set insert_iff empty_iff

lemma startswith_iff: "startswith s p = (take (length p) s = p)"
  by (induction s p rule: startswith.induct) auto

lemma re_alt_Some:
  "re_alt alts suffix s = Some (a, r) \<Longrightarrow> a \<in> set alts \<and> s = a @ suffix @ r"
proof (induction alts)
  case Nil
  then show ?case by simp
next
  case (Cons x alts)
  show ?case
  proof (cases "startswith s (x @ suffix)")
    case True
    with Cons.prems have eq: "a = x" "r = drop (length (x @ suffix)) s" by auto
    from True have "take (length (x @ suffix)) s = x @ suffix" by (simp add: startswith_iff)
    then have "s = (x @ suffix) @ drop (length (x @ suffix)) s"
      by (metis append_take_drop_id)
    with eq show ?thesis by simp
  next
    case False
    with Cons show ?thesis by simp
  qed
qed

lemma re_alt_fst:
  "(case map_option fst (re_alt alts suffix s) of None \<Rightarrow> True | Some a \<Rightarrow> a \<in> set alts)"
  by (cases "re_alt alts suffix s") (auto dest: re_alt_Some)

lemma group2_re_line: "group2 (re_line ln) = map_option fst (re_alt re_dest ''='' ln)"
  by (simp add: re_line_def Let_def split: option.split prod.split)

lemma group3_re_line:
  "\<exists>s. group3 (re_line ln) = (case re_alt re_comp [] s of None \<Rightarrow> [] | Some (a, r) \<Rightarrow> a)"
proof (cases "re_alt re_dest ''='' ln")
  case None
  then have "group3 (re_line ln) = (case re_alt re_comp [] ln of None \<Rightarrow> [] | Some (a, r) \<Rightarrow> a)"
    by (simp add: re_line_def Let_def split: option.split prod.split)
  then show ?thesis ..
next
  case (Some p)
  then have "group3 (re_line ln) = (case re_alt re_comp [] (snd p) of None \<Rightarrow> [] | Some (a, r) \<Rightarrow> a)"
    by (cases p) (auto simp: re_line_def Let_def split: option.split)
  then show ?thesis ..
qed

lemma group5_re_line:
  "group5 (re_line ln) = None \<or> (\<exists>s. group5 (re_line ln) = map_option fst (re_alt re_jmp [] s))"
  by (simp add: re_line_def Let_def split: option.split prod.split list.split) blast

lemma re_line_groups:
  "(case group2 (re_line ln) of None \<Rightarrow> True | Some a \<Rightarrow> a \<in> set re_dest)
   \<and> (group3 (re_line ln) \<in> set ([] # re_comp))
   \<and> (case group5 (re_line ln) of None \<Rightarrow> True | Some a \<Rightarrow> a \<in> set re_jmp)"
proof (intro conjI)
  show "case group2 (re_line ln) of None \<Rightarrow> True | Some a \<Rightarrow> a \<in> set re_dest"
    unfolding group2_re_line by (rule re_alt_fst)
  show "group3 (re_line ln) \<in> set ([] # re_comp)"
  proof -
    obtain s where "group3 (re_line ln) = (case re_alt re_comp [] s of None \<Rightarrow> [] | Some (a, r) \<Rightarrow> a)"
      using group3_re_line by blast
    then show ?thesis
      by (cases "re_alt re_comp [] s") (auto dest: re_alt_Some)
  qed
  show "case group5 (re_line ln) of None \<Rightarrow> True | Some a \<Rightarrow> a \<in> set re_jmp"
    using group5_re_line [of ln] re_alt_fst [of re_jmp "[]"] by auto
qed

lemma getitem_dest:
  "a \<in> set re_dest \<Longrightarrow> \<exists>v. getitem dest_table a = Inr v \<and> length v = 3"
  unfolding re_dest_def getitem_def dest_table_def mem_list
  by (elim disjE) simp_all

lemma getitem_jmp:
  "a \<in> set re_jmp \<Longrightarrow> \<exists>v. getitem jmp_table a = Inr v \<and> length v = 3"
  unfolding re_jmp_def getitem_def jmp_table_def mem_list
  by (elim disjE) simp_all

lemma getitem_comp:
  "a \<in> set re_comp \<Longrightarrow> \<exists>v. getitem comp_table a = Inr v \<and> length v = 10"
  unfolding re_comp_def getitem_def comp_table_def mem_list
  by (elim disjE) simp_all

lemma getitem_None:
  "getitem dest_table (py_str None) = Inr ''000''" "getitem jmp_table (py_str None) = Inr ''000''"
  by (simp_all add: getitem_def dest_table_def jmp_table_def py_str_def)

lemma comp_table_keys: "fst ` set comp_table = set re_comp"
  unfolding comp_table_def re_comp_def by (simp add: insert_commute)

lemma code_parse_result:
  "\<exists>dest c jmp. code_parse ln = Inr (dest, c, jmp) \<and> length dest = 3 \<and> length jmp = 3
     \<and> (c = None) = (group3 (re_line ln) = [])
     \<and> (case c of None \<Rightarrow> True | Some b \<Rightarrow> length b = 10)"
proof -
  obtain dest where dest: "getitem dest_table (py_str (group2 (re_line ln))) = Inr dest" "length dest = 3"
    using re_line_groups [of ln] getitem_dest getitem_None(1)
    by (cases "group2 (re_line ln)") (auto simp: py_str_def)
  obtain jmp where jmp: "getitem jmp_table (py_str (group5 (re_line ln))) = Inr jmp" "length jmp = 3"
    using re_line_groups [of ln] getitem_jmp getitem_None(2)
    by (cases "group5 (re_line ln)") (auto simp: py_str_def)
  show ?thesis
  proof (cases "group3 (re_line ln) = []")
    case True
    with dest jmp show ?thesis by (simp add: code_parse_def)
  next
    case False
    with re_line_groups [of ln] have "group3 (re_line ln) \<in> set re_comp" by auto
    then obtain v where "getitem comp_table (group3 (re_line ln)) = Inr v" "length v = 10"
      using getitem_comp by blast
    with dest jmp False show ?thesis by (simp add: code_parse_def py_str_def)
  qed
qed

text \<open>
  C8. \<open>code_parse\<close> returns on every string, and never raises: the three dictionary
  lookups cannot miss. The computation code is \<open>None\<close> exactly when the grammar found no
  computation (group 3 is empty), and is a code of ten characters otherwise; the
  destination and jump codes have three characters.
\<close>

theorem code_parse_total:
  "\<exists>dest c jmp. code_parse ln = Inr (dest, c, jmp) \<and> length dest = 3 \<and> length jmp = 3
     \<and> (c = None) = (group3 (re_line ln) = [])
     \<and> (case c of None \<Rightarrow> True | Some b \<Rightarrow> length b = 10)"
  by (rule code_parse_result)

lemma re_dest_found:
  "a \<in> set re_dest \<Longrightarrow> re_alt re_dest ''='' (a @ ''='' @ r) = Some (a, r)"
  unfolding re_dest_def mem_list by (elim disjE) simp_all

lemma re_jmp_found:
  "j \<in> set re_jmp \<Longrightarrow> re_alt re_jmp [] j = Some (j, [])"
  unfolding re_jmp_def mem_list by (elim disjE) simp_all

lemma re_dest_absent_nil:
  "c \<in> set re_comp \<Longrightarrow> re_alt re_dest ''='' c = None"
  unfolding re_comp_def re_dest_def mem_list
  by (elim disjE) simp_all

lemma re_dest_absent_semi:
  "c \<in> set re_comp \<Longrightarrow> re_alt re_dest ''='' (c @ CHR '';'' # r) = None"
  unfolding re_comp_def re_dest_def mem_list
  by (elim disjE) simp_all

lemma re_comp_found_nil:
  "c \<in> set re_comp \<Longrightarrow> re_alt re_comp [] c = Some (c, [])"
  unfolding re_comp_def mem_list
  by (elim disjE) simp_all

lemma re_comp_found_semi:
  "c \<in> set re_comp \<Longrightarrow> re_alt re_comp [] (c @ CHR '';'' # r) = Some (c, CHR '';'' # r)"
  unfolding re_comp_def mem_list
  by (elim disjE) simp_all

lemma re_comp_first_char:
  "c \<in> set re_comp \<Longrightarrow> c \<noteq> [] \<and> hd c \<noteq> CHR ''@''"
  unfolding re_comp_def mem_list
  by (elim disjE) simp_all

lemma re_dest_first_char:
  "a \<in> set re_dest \<Longrightarrow> a \<noteq> [] \<and> hd a \<noteq> CHR ''@''"
  unfolding re_dest_def mem_list
  by (elim disjE) simp_all


section \<open>Compute instructions\<close>

lemma re_line_c_instruction:
  assumes d: "d \<in> set (None # map Some re_dest)" and c: "c \<in> set re_comp"
    and j: "j \<in> set (None # map Some re_jmp)"
  shows "re_line (c_instruction d c j) = \<lparr>group2 = d, group3 = c, group5 = j\<rparr>"
proof -
  define tl_j where "tl_j = (case j of None \<Rightarrow> [] | Some b \<Rightarrow> CHR '';'' # b)"
  have line: "c_instruction d c j = (case d of None \<Rightarrow> [] | Some a \<Rightarrow> a @ ''='') @ c @ tl_j"
    by (simp add: c_instruction_def tl_j_def)
  have comp: "re_alt re_comp [] (c @ tl_j) = Some (c, tl_j)"
    using c by (cases j) (simp_all add: tl_j_def re_comp_found_nil re_comp_found_semi)
  have nodest: "re_alt re_dest ''='' (c @ tl_j) = None"
    using c by (cases j) (simp_all add: tl_j_def re_dest_absent_nil re_dest_absent_semi)
  have jmp: "(case tl_j of [] \<Rightarrow> None
               | x # r \<Rightarrow> if x = CHR '';'' then map_option fst (re_alt re_jmp [] r) else None) = j"
    using j by (cases j) (auto simp: tl_j_def re_jmp_found)
  show ?thesis
  proof (cases d)
    case None
    with comp nodest jmp show ?thesis unfolding line re_line_def by simp
  next
    case (Some a)
    with d have "a \<in> set re_dest" by auto
    then have "re_alt re_dest ''='' (a @ ''='' @ c @ tl_j) = Some (a, c @ tl_j)"
      by (rule re_dest_found)
    with Some comp jmp show ?thesis unfolding line re_line_def by simp
  qed
qed

lemma c_instruction_first:
  assumes d: "d \<in> set (None # map Some re_dest)" and c: "c \<in> set re_comp"
  shows "c_instruction d c j \<noteq> [] \<and> hd (c_instruction d c j) \<noteq> CHR ''@''"
proof (cases d)
  case None
  with re_comp_first_char [OF c] show ?thesis by (simp add: c_instruction_def)
next
  case (Some a)
  with d have "a \<in> set re_dest" by auto
  from re_dest_first_char [OF this] Some show ?thesis by (simp add: c_instruction_def)
qed

text \<open>
  C1. For an absent or listed destination \<open>d\<close>, a computation \<open>c\<close> that is a key of the
  computation table and an absent or listed jump \<open>j\<close>, the encoder classifies the line
  \<open>[d=]c[;j]\<close> as a compute instruction (\<open>c_type\<close>), and its binary is the ten-character
  code of \<open>c\<close>, then the three-character code of \<open>d\<close>, then that of \<open>j\<close>, each read from
  its table; the code of an absent destination or jump is \<open>000\<close>.
\<close>

theorem compute_encoding:
  assumes d: "d \<in> set (None # map Some re_dest)" and c: "c \<in> fst ` set comp_table"
    and j: "j \<in> set (None # map Some re_jmp)"
  shows "\<exists>cc dd jj.
           getitem comp_table c = Inr cc \<and> length cc = 10
         \<and> getitem dest_table (py_str d) = Inr dd \<and> length dd = 3
         \<and> getitem jmp_table (py_str j) = Inr jj \<and> length jj = 3
         \<and> subclass_line (c_instruction d c j) loc symbolics
             = Inr ((Some ''c_type'', cc @ dd @ jj), symbolics)
         \<and> getitem dest_table (py_str None) = Inr ''000''
         \<and> getitem jmp_table (py_str None) = Inr ''000''"
proof -
  from c have c': "c \<in> set re_comp" by (simp add: comp_table_keys)
  obtain cc where cc: "getitem comp_table c = Inr cc" "length cc = 10"
    using getitem_comp [OF c'] by blast
  have "\<exists>dd. getitem dest_table (py_str d) = Inr dd \<and> length dd = 3"
  proof (cases d)
    case None
    with getitem_None(1) show ?thesis by simp
  next
    case (Some a)
    with d have "a \<in> set re_dest" by auto
    from getitem_dest [OF this] Some show ?thesis by (simp add: py_str_def)
  qed
  then obtain dd where dd: "getitem dest_table (py_str d) = Inr dd" "length dd = 3"
    by blast
  have "\<exists>jj. getitem jmp_table (py_str j) = Inr jj \<and> length jj = 3"
  proof (cases j)
    case None
    with getitem_None(2) show ?thesis by simp
  next
    case (Some b)
    with j have "b \<in> set re_jmp" by auto
    from getitem_jmp [OF this] Some show ?thesis by (simp add: py_str_def)
  qed
  then obtain jj where jj: "getitem jmp_table (py_str j) = Inr jj" "length jj = 3"
    by blast
  have groups: "re_line (c_instruction d c j) = \<lparr>group2 = d, group3 = c, group5 = j\<rparr>"
    using d c' j by (rule re_line_c_instruction)
  from re_comp_first_char [OF c'] have "c \<noteq> []" by simp
  with groups cc dd jj
  have parse: "code_parse (c_instruction d c j) = Inr (dd, Some cc, jj)"
    by (simp add: code_parse_def py_str_def)
  from cc(2) have "cc \<noteq> []" by auto
  with parse c_instruction_first [OF d c', of j]
  have "subclass_line (c_instruction d c j) loc symbolics
          = Inr ((Some ''c_type'', cc @ dd @ jj), symbolics)"
    by (simp add: subclass_line_def)
  with cc dd jj getitem_None show ?thesis by blast
qed

theorem compute_encoding_witness:
  "Some ''D'' \<in> set (None # map Some re_dest) \<and> ''D+1'' \<in> fst ` set comp_table
   \<and> None \<in> set (None # map Some re_jmp)
   \<and> c_instruction (Some ''D'') ''D+1'' None = ''D=D+1''
   \<and> subclass_line ''D=D+1'' None None = Inr ((Some ''c_type'', ''1110011111010000''), None)"
proof -
  have d: "Some ''D'' \<in> set (None # map Some re_dest)" by (simp add: re_dest_def)
  have c: "''D+1'' \<in> fst ` set comp_table" by (simp add: comp_table_keys re_comp_def)
  have j: "None \<in> set (None # map Some re_jmp)" by simp
  have l: "c_instruction (Some ''D'') ''D+1'' None = ''D=D+1''" by (simp add: c_instruction_def)
  from compute_encoding [OF d c j, of None None]
  have "subclass_line ''D=D+1'' None None = Inr ((Some ''c_type'', ''1110011111010000''), None)"
    unfolding l by (auto simp: getitem_def comp_table_def dest_table_def jmp_table_def py_str_def)
  with d c j l show ?thesis by simp
qed

section \<open>Binary rendering\<close>

lemma digit_val_char: "d < 10 \<Longrightarrow> digit_val (digit_char d) = d"
  by (simp add: digit_val_def digit_char_def)

lemma digit_char_numeral:
  "digit_char 0 = CHR ''0''" "digit_char 1 = CHR ''1''" "digit_char (Suc 0) = CHR ''1''"
  "digit_char 2 = CHR ''2''" "digit_char 3 = CHR ''3''" "digit_char 4 = CHR ''4''"
  "digit_char 5 = CHR ''5''" "digit_char 6 = CHR ''6''" "digit_char 7 = CHR ''7''"
  "digit_char 8 = CHR ''8''" "digit_char 9 = CHR ''9''"
  by (simp_all add: digit_char_def char_of_eq_iff)

lemma digit_char_bit: "d < 2 \<Longrightarrow> digit_char d \<in> {CHR ''0'', CHR ''1''}"
proof -
  assume "d < 2"
  then have "d = 0 \<or> d = 1" by auto
  then show ?thesis by (auto simp: digit_char_numeral)
qed

lemma bin_value_snoc: "bin_value (s @ [c]) = 2 * bin_value s + digit_val c"
  by (simp add: bin_value_def)

lemma bin_value_digits: "bin_value (bin_digits n) = n"
proof (induction n rule: bin_digits.induct)
  case (1 n)
  show ?case
  proof (cases "n < 2")
    case True
    then show ?thesis
      by (subst bin_digits.simps) (simp add: bin_value_def digit_val_char)
  next
    case False
    with 1 have "bin_value (bin_digits (n div 2)) = n div 2" by simp
    with False show ?thesis
      by (subst bin_digits.simps) (simp add: bin_value_snoc digit_val_char)
  qed
qed

lemma set_bin_digits: "set (bin_digits n) \<subseteq> {CHR ''0'', CHR ''1''}"
proof (induction n rule: bin_digits.induct)
  case (1 n)
  show ?case
  proof (cases "n < 2")
    case True
    with digit_char_bit [of n] show ?thesis
      by (subst bin_digits.simps) simp
  next
    case False
    with 1 have "set (bin_digits (n div 2)) \<subseteq> {CHR ''0'', CHR ''1''}" by simp
    with False digit_char_bit [of "n mod 2"] show ?thesis
      by (subst bin_digits.simps) simp
  qed
qed

lemma length_bin_digits_pos: "0 < length (bin_digits n)"
  by (subst bin_digits.simps) simp

lemma length_bin_digits: "0 < k \<Longrightarrow> (length (bin_digits n) \<le> k) = (n < 2 ^ k)"
proof (induction n arbitrary: k rule: bin_digits.induct)
  case (1 n)
  show ?case
  proof (cases "n < 2")
    case True
    have "(2::nat) ^ 1 \<le> 2 ^ k" using 1(2) by (intro power_increasing) simp_all
    with True 1(2) show ?thesis
      by (subst bin_digits.simps) (simp add: Suc_le_eq)
  next
    case False
    show ?thesis
    proof (cases "k = 1")
      case True
      with False length_bin_digits_pos [of "n div 2"] show ?thesis
        by (subst bin_digits.simps) simp
    next
      case k: False
      with 1(2) obtain k' where k': "k = Suc k'" "0 < k'" by (cases k) auto
      from 1(1) [OF False k'(2)]
      have "(length (bin_digits (n div 2)) \<le> k') = (n div 2 < 2 ^ k')" .
      moreover have "(n div 2 < 2 ^ k') = (n < 2 ^ k)"
        by (simp add: k'(1) div_less_iff_less_mult mult.commute)
      ultimately show ?thesis using False k'
        by (subst bin_digits.simps) simp
    qed
  qed
qed

lemma bin_value_zfill: "bin_value (zfill w s) = bin_value s"
proof -
  have "foldl (\<lambda>acc c. 2 * acc + digit_val c) 0 (replicate m (CHR ''0'')) = 0" for m
    by (induction m) (simp_all add: digit_val_def)
  then show ?thesis by (simp add: bin_value_def zfill_def)
qed

lemma length_zfill: "length (zfill w s) = max w (length s)"
  by (simp add: zfill_def)

lemma set_zfill: "set s \<subseteq> {CHR ''0'', CHR ''1''} \<Longrightarrow> set (zfill w s) \<subseteq> {CHR ''0'', CHR ''1''}"
  by (auto simp: zfill_def)

lemma format016b_nonneg:
  assumes "0 \<le> n"
  shows "set (format016b n) \<subseteq> {CHR ''0'', CHR ''1''}"
    and "int (bin_value (format016b n)) = n"
    and "16 \<le> length (format016b n)"
    and "(length (format016b n) = 16) = (n < 65536)"
proof -
  from assms have f: "format016b n = zfill 16 (bin_digits (nat n))"
    by (simp add: format016b_def)
  show "set (format016b n) \<subseteq> {CHR ''0'', CHR ''1''}"
    unfolding f by (rule set_zfill) (rule set_bin_digits)
  show "int (bin_value (format016b n)) = n"
    using assms by (simp add: f bin_value_zfill bin_value_digits)
  show "16 \<le> length (format016b n)"
    by (simp add: f length_zfill)
  have "(length (bin_digits (nat n)) \<le> 16) = (nat n < 2 ^ 16)"
    by (rule length_bin_digits) simp
  moreover have "(nat n < 2 ^ 16) = (n < 65536)" using assms by auto
  ultimately show "(length (format016b n) = 16) = (n < 65536)"
    by (auto simp: f length_zfill max_def)
qed

lemma bin_digits_numeral:
  "bin_digits 0 = ''0''" "bin_digits 1 = ''1''" "bin_digits (Suc 0) = ''1''"
  "bin_digits (numeral Num.One) = ''1''"
  "bin_digits (numeral (Num.Bit0 k)) = bin_digits (numeral k) @ ''0''"
  "bin_digits (numeral (Num.Bit1 k)) = bin_digits (numeral k) @ ''1''"
proof -
  show "bin_digits 0 = ''0''" "bin_digits 1 = ''1''" "bin_digits (Suc 0) = ''1''"
    "bin_digits (numeral Num.One) = ''1''"
    by (simp_all add: bin_digits.simps [of 0] bin_digits.simps [of 1] bin_digits.simps [of "Suc 0"]
          digit_char_numeral)
  have "\<not> numeral (Num.Bit0 k) < (2::nat)" "\<not> numeral (Num.Bit1 k) < (2::nat)"
    by simp_all
  then show "bin_digits (numeral (Num.Bit0 k)) = bin_digits (numeral k) @ ''0''"
    "bin_digits (numeral (Num.Bit1 k)) = bin_digits (numeral k) @ ''1''"
    by (simp_all add: bin_digits.simps [of "numeral (Num.Bit0 k)"]
          bin_digits.simps [of "numeral (Num.Bit1 k)"] digit_char_numeral)
qed

lemma replicate_numeral: "replicate (numeral k) x = x # replicate (pred_numeral k) x"
  by (simp add: numeral_eq_Suc)

lemmas format_eval = format016b_def zfill_def bin_digits_numeral replicate_numeral

lemmas py_int_eval = py_int_def strip_def int_space_def unsigned_value_def is_digit_def
  digit_val_def int_max_str_digits_def

section \<open>Address instructions\<close>

lemma subclass_address:
  "subclass_line (CHR ''@'' # operand) loc symbolics =
     (case address_parse operand loc symbolics of
        Inl e \<Rightarrow> Inl e
      | Inr (b, symbolics') \<Rightarrow> Inr ((Some ''a_type'', b), symbolics'))"
proof -
  obtain dest c jmp where "code_parse (CHR ''@'' # operand) = Inr (dest, c, jmp)"
    using code_parse_result by blast
  then show ?thesis by (simp add: subclass_line_def)
qed

text \<open>
  C2, as amended. For an address instruction \<open>@OPERAND\<close>: if \<open>int(OPERAND)\<close> is a number
  \<open>n \<ge> 0\<close>, the instruction emitted is \<open>n\<close> in binary digits, most significant first,
  padded with zeros to at least 16 characters, and it has exactly 16 characters if and
  only if \<open>n < 65536\<close>. If \<open>int(OPERAND)\<close> raises \<open>ValueError\<close> and a symbol table is
  given, the instruction emitted is exactly the string \<open>resolve\<close> returns for the operand,
  and the table is the one \<open>resolve\<close> leaves.
\<close>

theorem address_encoding:
  "(py_int operand = Some n \<and> 0 \<le> n \<longrightarrow>
      (\<exists>b. subclass_line (CHR ''@'' # operand) loc symbolics = Inr ((Some ''a_type'', b), symbolics)
         \<and> set b \<subseteq> {CHR ''0'', CHR ''1''} \<and> int (bin_value b) = n
         \<and> 16 \<le> length b \<and> (length b = 16) = (n < 65536)))
   \<and> (py_int operand = None \<longrightarrow>
      subclass_line (CHR ''@'' # operand) loc (Some st)
        = Inr ((Some ''a_type'', fst (resolve st operand)), Some (snd (resolve st operand))))"
proof (intro conjI impI)
  assume a: "py_int operand = Some n \<and> 0 \<le> n"
  then have "subclass_line (CHR ''@'' # operand) loc symbolics
               = Inr ((Some ''a_type'', format016b n), symbolics)"
    by (simp add: subclass_address address_parse_def)
  with a format016b_nonneg [of n]
  show "\<exists>b. subclass_line (CHR ''@'' # operand) loc symbolics = Inr ((Some ''a_type'', b), symbolics)
         \<and> set b \<subseteq> {CHR ''0'', CHR ''1''} \<and> int (bin_value b) = n
         \<and> 16 \<le> length b \<and> (length b = 16) = (n < 65536)"
    by simp
next
  assume "py_int operand = None"
  then show "subclass_line (CHR ''@'' # operand) loc (Some st)
        = Inr ((Some ''a_type'', fst (resolve st operand)), Some (snd (resolve st operand)))"
    by (simp add: subclass_address address_parse_def split: prod.split)
qed

lemma resolve_foo:
  "resolve \<lparr>lines = [], table = Map.empty, used = 15\<rparr> ''foo''
     = (''0000000000010000'',
        \<lparr>lines = [], table = [''foo'' \<mapsto> ''0000000000010000''], used = 16\<rparr>)"
  by (simp add: resolve_def Let_def format_eval)

theorem address_encoding_witness:
  "py_int ''2'' = Some 2 \<and> (0::int) \<le> 2
   \<and> (\<exists>b. subclass_line ''@2'' None None = Inr ((Some ''a_type'', b), None)
         \<and> set b \<subseteq> {CHR ''0'', CHR ''1''} \<and> int (bin_value b) = 2
         \<and> 16 \<le> length b \<and> (length b = 16) = ((2::int) < 65536))
   \<and> subclass_line ''@2'' None None = Inr ((Some ''a_type'', ''0000000000000010''), None)
   \<and> py_int ''foo'' = None
   \<and> subclass_line ''@foo'' None (Some \<lparr>lines = [], table = Map.empty, used = 15\<rparr>)
        = Inr ((Some ''a_type'', ''0000000000010000''),
               Some \<lparr>lines = [], table = [''foo'' \<mapsto> ''0000000000010000''], used = 16\<rparr>)"
proof -
  have i: "py_int ''2'' = Some 2" by (simp add: py_int_eval)
  have f: "py_int ''foo'' = None" by (rule py_int_foo)
  note th = address_encoding [of "''2''" 2 None None "\<lparr>lines = [], table = Map.empty, used = 15\<rparr>"]
  note th' = address_encoding [of "''foo''" 0 None None "\<lparr>lines = [], table = Map.empty, used = 15\<rparr>"]
  from th i have 1: "\<exists>b. subclass_line ''@2'' None None = Inr ((Some ''a_type'', b), None)
         \<and> set b \<subseteq> {CHR ''0'', CHR ''1''} \<and> int (bin_value b) = 2
         \<and> 16 \<le> length b \<and> (length b = 16) = ((2::int) < 65536)"
    by simp
  have 2: "subclass_line ''@2'' None None = Inr ((Some ''a_type'', ''0000000000000010''), None)"
    by (simp add: subclass_address address_parse_def i format_eval)
  from th' f have 3: "subclass_line ''@foo'' None (Some \<lparr>lines = [], table = Map.empty, used = 15\<rparr>)
        = Inr ((Some ''a_type'', ''0000000000010000''),
               Some \<lparr>lines = [], table = [''foo'' \<mapsto> ''0000000000010000''], used = 16\<rparr>)"
    by (simp add: resolve_foo)
  from i f 1 2 3 show ?thesis by simp
qed

text \<open>
  The claim as stated fails for a large number: the operand of \<open>@65536\<close> is a non-negative
  integer, and the instruction emitted has 17 characters.
\<close>

theorem address_width_counterexample:
  "py_int ''65536'' = Some 65536 \<and> (0::int) \<le> 65536
   \<and> subclass_line ''@65536'' None None = Inr ((Some ''a_type'', ''10000000000000000''), None)
   \<and> length ''10000000000000000'' = 17"
  by (simp add: subclass_address address_parse_def py_int_eval format_eval)

section \<open>Resolve\<close>

lemma resolve_present:
  "table st name = Some v \<Longrightarrow> resolve st name = (v, st)"
  by (simp add: resolve_def)

lemma resolve_absent:
  "table st name = None \<Longrightarrow>
     resolve st name =
       (format016b (used st + 1),
        st\<lparr>used := used st + 1, table := (table st)(name \<mapsto> format016b (used st + 1))\<rparr>)"
  by (simp add: resolve_def Let_def)

lemma resolve_stores: "table (snd (resolve st name)) name = Some (fst (resolve st name))"
  by (cases "table st name") (simp_all add: resolve_present resolve_absent)

lemma resolve_keeps:
  "table st k = Some v \<Longrightarrow> table (snd (resolve st name)) k = Some v"
  by (cases "table st name") (auto simp: resolve_present resolve_absent)

lemma resolve_lines: "lines (snd (resolve st name)) = lines st"
  by (cases "table st name") (auto simp: resolve_present resolve_absent)

lemma resolve_used:
  "used (snd (resolve st name)) = (if name \<in> dom (table st) then used st else used st + 1)"
  by (cases "table st name") (auto simp: resolve_present resolve_absent)

lemma resolve_dom: "dom (table (snd (resolve st name))) = insert name (dom (table st))"
  by (cases "table st name") (auto simp: resolve_present resolve_absent)

lemma resolves_keeps:
  "table st k = Some v \<Longrightarrow> table (resolves st names) k = Some v"
  by (induction names arbitrary: st) (simp_all add: resolve_keeps)

lemma resolves_append: "resolves st (xs @ ys) = resolves (resolves st xs) ys"
  by (induction xs arbitrary: st) simp_all

lemma resolves_dom: "dom (table (resolves st names)) = dom (table st) \<union> set names"
  by (induction names arbitrary: st) (auto simp: resolve_dom)

lemma resolves_used:
  "used (resolves st names) = used st + int (card (set names - dom (table st)))"
proof (induction names arbitrary: st)
  case Nil
  show ?case by simp
next
  case (Cons x xs)
  show ?case
  proof (cases "x \<in> dom (table st)")
    case True
    then have "set (x # xs) - dom (table st) = set xs - dom (table st)" by auto
    moreover from True have "insert x (dom (table st)) = dom (table st)" by auto
    ultimately show ?thesis using True by (simp add: Cons.IH resolve_used resolve_dom)
  next
    case False
    have fin: "finite (set xs - insert x (dom (table st)))" by simp
    have "set (x # xs) - dom (table st) = insert x (set xs - insert x (dom (table st)))"
      using False by auto
    moreover have "card (insert x (set xs - insert x (dom (table st))))
                     = Suc (card (set xs - insert x (dom (table st))))"
      by (rule card_insert_disjoint [OF fin]) simp
    ultimately have "card (set (x # xs) - dom (table st)) = Suc (card (set xs - insert x (dom (table st))))"
      by (simp only:)
    with False show ?thesis by (simp add: Cons.IH resolve_used resolve_dom)
  qed
qed

lemma resolve_idempotent:
  "fst (resolve (resolves (snd (resolve st name)) later) name) = fst (resolve st name)"
proof -
  have "table (resolves (snd (resolve st name)) later) name = Some (fst (resolve st name))"
    by (rule resolves_keeps) (rule resolve_stores)
  then show ?thesis by (simp add: resolve_present)
qed

section \<open>Construction of the symbol table\<close>

lemma sanitizeasm_nonempty: "[] \<notin> set (sanitizeasm raw)"
  by (simp add: sanitizeasm_def)

lemma scan_total:
  "[] \<notin> set lns \<Longrightarrow> \<exists>tbl' cl'. scan lns i tbl c cl = Inr (tbl', cl')"
  by (induction lns arbitrary: i tbl c cl) auto

lemma scan_lines:
  "scan lns (length pre) tbl c cl = Inr (tbl', cl') \<Longrightarrow>
     map (\<lambda>k. (pre @ lns) ! k) cl' = map (\<lambda>k. (pre @ lns) ! k) cl @ instructions lns"
proof (induction lns arbitrary: pre tbl c cl)
  case Nil
  then show ?case by (simp add: instructions_def)
next
  case (Cons ln rest)
  from Cons.prems have ne: "ln \<noteq> []" by (auto split: if_splits)
  have app: "pre @ ln # rest = (pre @ [ln]) @ rest" by simp
  show ?case
  proof (cases "is_label ln")
    case True
    with Cons.prems ne
    have "scan rest (length (pre @ [ln])) (tbl(butlast (tl ln) \<mapsto> format016b c)) c cl = Inr (tbl', cl')"
      by simp
    from Cons.IH [OF this] True show ?thesis
      unfolding app by (simp add: instructions_def)
  next
    case False
    with Cons.prems ne
    have "scan rest (length (pre @ [ln])) tbl (c + 1) (cl @ [length pre]) = Inr (tbl', cl')"
      by simp
    from Cons.IH [OF this] False show ?thesis
      unfolding app by (simp add: instructions_def nth_append)
  qed
qed

lemma scan_keeps:
  "scan lns i tbl c cl = Inr (tbl', cl') \<Longrightarrow> name \<notin> set (declared lns) \<Longrightarrow> tbl' name = tbl name"
proof (induction lns arbitrary: i tbl c cl)
  case Nil
  then show ?case by simp
next
  case (Cons ln rest)
  from Cons.prems(1) have ne: "ln \<noteq> []" by (auto split: if_splits)
  show ?case
  proof (cases "is_label ln")
    case True
    with Cons.prems ne
    have s: "scan rest (i + 1) (tbl(butlast (tl ln) \<mapsto> format016b c)) c cl = Inr (tbl', cl')"
      and n: "name \<noteq> butlast (tl ln)" "name \<notin> set (declared rest)"
      by (auto simp: declared_def)
    from Cons.IH [OF s n(2)] n(1) show ?thesis by simp
  next
    case False
    with Cons.prems ne
    have s: "scan rest (i + 1) tbl (c + 1) (cl @ [i]) = Inr (tbl', cl')"
      and n: "name \<notin> set (declared rest)"
      by (auto simp: declared_def)
    from Cons.IH [OF s n] show ?thesis .
  qed
qed

lemma scan_last_declaration:
  "scan (xs @ l # ys) i tbl c cl = Inr (tbl', cl') \<Longrightarrow> is_label l \<Longrightarrow>
   butlast (tl l) \<notin> set (declared ys) \<Longrightarrow>
     tbl' (butlast (tl l)) = Some (format016b (c + int (length (instructions xs))))"
proof (induction xs arbitrary: i tbl c cl)
  case Nil
  from Nil.prems(1) have ne: "l \<noteq> []" by (auto split: if_splits)
  with Nil.prems
  have "scan ys (i + 1) (tbl(butlast (tl l) \<mapsto> format016b c)) c cl = Inr (tbl', cl')"
    by simp
  from scan_keeps [OF this Nil.prems(3)] show ?case by (simp add: instructions_def)
next
  case (Cons ln rest)
  from Cons.prems(1) have ne: "ln \<noteq> []" by (auto split: if_splits)
  show ?case
  proof (cases "is_label ln")
    case True
    with Cons.prems(1) ne
    have "scan (rest @ l # ys) (i + 1) (tbl(butlast (tl ln) \<mapsto> format016b c)) c cl = Inr (tbl', cl')"
      by simp
    from Cons.IH [OF this Cons.prems(2,3)] True show ?thesis by (simp add: instructions_def)
  next
    case False
    with Cons.prems(1) ne
    have "scan (rest @ l # ys) (i + 1) tbl (c + 1) (cl @ [i]) = Inr (tbl', cl')"
      by simp
    from Cons.IH [OF this Cons.prems(2,3)] False show ?thesis
      by (simp add: instructions_def add.assoc)
  qed
qed

lemma symboltable_init_result:
  "\<exists>tbl. symboltable_init raw
           = Inr \<lparr>lines = instructions (sanitizeasm raw), table = tbl, used = 15\<rparr>
         \<and> (\<exists>cl. scan (sanitizeasm raw) 0 seed_table 0 [] = Inr (tbl, cl))"
proof -
  obtain tbl cl where s: "scan (sanitizeasm raw) 0 seed_table 0 [] = Inr (tbl, cl)"
    using scan_total [OF sanitizeasm_nonempty] by blast
  from scan_lines [of "sanitizeasm raw" "[]" seed_table 0 "[]" tbl cl] s
  have "map (\<lambda>k. sanitizeasm raw ! k) cl = instructions (sanitizeasm raw)" by simp
  with s show ?thesis by (simp add: symboltable_init_def inittable_def)
qed

lemma upt_16: "[0..<16] = [0, 1, 2, 3, 4, 5, 6, 7, 8, 9, 10, 11, 12, 13, 14, 15::nat]"
  by code_simp

lemma seed_table_eq:
  "seed_table =
     (fold (\<lambda>(k, i) t. t(k \<mapsto> format016b i))
        [(''R0'', 0), (''R1'', 1), (''R2'', 2), (''R3'', 3), (''R4'', 4), (''R5'', 5),
         (''R6'', 6), (''R7'', 7), (''R8'', 8), (''R9'', 9), (''R10'', 10), (''R11'', 11),
         (''R12'', 12), (''R13'', 13), (''R14'', 14), (''R15'', 15)] Map.empty)
       (''SP'' \<mapsto> format016b 0, ''LCL'' \<mapsto> format016b 1, ''ARG'' \<mapsto> format016b 2,
        ''THIS'' \<mapsto> format016b 3, ''THAT'' \<mapsto> format016b 4,
        ''SCREEN'' \<mapsto> format016b 16384, ''KBD'' \<mapsto> format016b 24576)"
  unfolding seed_table_def upt_16
  by (simp add: str_nat.simps digit_char_numeral)

lemma seed_lookups:
  "seed_table ''R0'' = Some ''0000000000000000''"
  "seed_table ''SP'' = Some ''0000000000000000''"
  "seed_table ''i'' = None"
  "seed_table ''sum'' = None"
  "seed_table ''LOOP'' = None"
  by (simp_all add: seed_table_eq format_eval)

section \<open>Labels\<close>

lemma symboltable_init_last_declaration:
  assumes i: "i < length (sanitizeasm raw)" and l: "is_label (sanitizeasm raw ! i)"
    and last: "butlast (tl (sanitizeasm raw ! i)) \<notin> set (declared (drop (Suc i) (sanitizeasm raw)))"
  shows "\<exists>st. symboltable_init raw = Inr st
           \<and> lines st = instructions (take i (sanitizeasm raw))
                          @ instructions (drop (Suc i) (sanitizeasm raw))
           \<and> resolve st (butlast (tl (sanitizeasm raw ! i)))
               = (format016b (int (length (instructions (take i (sanitizeasm raw))))), st)"
proof -
  define sane where "sane = sanitizeasm raw"
  obtain tbl cl where st: "symboltable_init raw
      = Inr \<lparr>lines = instructions sane, table = tbl, used = 15\<rparr>"
    and sc: "scan sane 0 seed_table 0 [] = Inr (tbl, cl)"
    using symboltable_init_result [of raw] unfolding sane_def by blast
  from i have split: "sane = take i sane @ sane ! i # drop (Suc i) sane"
    unfolding sane_def by (rule id_take_nth_drop)
  from sc split
  have "scan (take i sane @ sane ! i # drop (Suc i) sane) 0 seed_table 0 [] = Inr (tbl, cl)"
    by simp
  from scan_last_declaration [OF this] l last
  have t: "tbl (butlast (tl (sane ! i))) = Some (format016b (int (length (instructions (take i sane)))))"
    unfolding sane_def by simp
  from l have "instructions sane = instructions (take i sane) @ instructions (drop (Suc i) sane)"
    by (subst split) (simp add: instructions_def sane_def)
  with st t show ?thesis
    unfolding sane_def by (simp add: resolve_present)
qed

lemma sanitize_LOOP: "sanitizeasm [''(LOOP)'', ''@LOOP''] = [''(LOOP)'', ''@LOOP'']"
  by (simp add: sanitizeasm_def sanitizeline_def is_space_def)

lemma py_int_LOOP: "py_int ''LOOP'' = None"
  by (simp add: py_int_eval)

text \<open>
  C3, as amended. A sanitized line is a label declaration when its first character is
  \<open>(\<close> and its last is \<open>)\<close>. For the last declaration of a name in the source (no later
  label line has the same inner text), the constructor succeeds, the instruction lines
  it keeps are the lines that are not labels, in order, and every \<open>resolve\<close> of the name
  returns the number of real instructions before the declaration, which is the index,
  from 0, of the next real instruction after it; the table is left as it is.
\<close>

theorem label_resolution:
  assumes "i < length (sanitizeasm raw)" and "is_label (sanitizeasm raw ! i)"
    and "butlast (tl (sanitizeasm raw ! i)) \<notin> set (declared (drop (Suc i) (sanitizeasm raw)))"
  shows "\<exists>st. symboltable_init raw = Inr st
           \<and> lines st = instructions (take i (sanitizeasm raw))
                          @ instructions (drop (Suc i) (sanitizeasm raw))
           \<and> resolve st (butlast (tl (sanitizeasm raw ! i)))
               = (format016b (int (length (instructions (take i (sanitizeasm raw))))), st)"
  using assms by (rule symboltable_init_last_declaration)

theorem label_resolution_witness:
  "0 < length (sanitizeasm [''(LOOP)'', ''@LOOP''])
   \<and> is_label (sanitizeasm [''(LOOP)'', ''@LOOP''] ! 0)
   \<and> butlast (tl (sanitizeasm [''(LOOP)'', ''@LOOP''] ! 0)) = ''LOOP''
   \<and> ''LOOP'' \<notin> set (declared (drop (Suc 0) (sanitizeasm [''(LOOP)'', ''@LOOP''])))
   \<and> (\<exists>st. symboltable_init [''(LOOP)'', ''@LOOP''] = Inr st
          \<and> lines st = [''@LOOP'']
          \<and> resolve st ''LOOP'' = (''0000000000000000'', st)
          \<and> subclass_line ''@LOOP'' (Some 1) (Some st)
              = Inr ((Some ''a_type'', ''0000000000000000''), Some st))"
proof -
  let ?raw = "[''(LOOP)'', ''@LOOP'']"
  have 1: "0 < length (sanitizeasm ?raw)" by (simp add: sanitize_LOOP)
  have 2: "is_label (sanitizeasm ?raw ! 0)" by (simp add: sanitize_LOOP is_label_def)
  have 3: "butlast (tl (sanitizeasm ?raw ! 0)) = ''LOOP''" by (simp add: sanitize_LOOP)
  have 4: "butlast (tl (sanitizeasm ?raw ! 0)) \<notin> set (declared (drop (Suc 0) (sanitizeasm ?raw)))"
    by (simp add: sanitize_LOOP declared_def is_label_def)
  from label_resolution [OF 1 2 4]
  obtain st where st: "symboltable_init ?raw = Inr st"
    "lines st = instructions (take 0 (sanitizeasm ?raw)) @ instructions (drop (Suc 0) (sanitizeasm ?raw))"
    "resolve st (butlast (tl (sanitizeasm ?raw ! 0)))
       = (format016b (int (length (instructions (take 0 (sanitizeasm ?raw))))), st)"
    by blast
  from st(2) have l: "lines st = [''@LOOP'']"
    by (simp add: sanitize_LOOP instructions_def is_label_def)
  from st(3) have r: "resolve st ''LOOP'' = (''0000000000000000'', st)"
    by (simp add: sanitize_LOOP instructions_def format_eval)
  then have "subclass_line ''@LOOP'' (Some 1) (Some st)
              = Inr ((Some ''a_type'', ''0000000000000000''), Some st)"
    by (simp add: subclass_address address_parse_def py_int_LOOP)
  with st(1) l r have "\<exists>st. symboltable_init ?raw = Inr st
          \<and> lines st = [''@LOOP'']
          \<and> resolve st ''LOOP'' = (''0000000000000000'', st)
          \<and> subclass_line ''@LOOP'' (Some 1) (Some st)
              = Inr ((Some ''a_type'', ''0000000000000000''), Some st)"
    by blast
  with 1 2 3 4 show ?thesis by simp
qed

lemma sanitize_XX: "sanitizeasm [''(X)'', ''D=A'', ''(X)''] = [''(X)'', ''D=A'', ''(X)'']"
  by (simp add: sanitizeasm_def sanitizeline_def is_space_def)

text \<open>
  The claim as stated fails for a name declared twice: in \<open>(X)\<close>, \<open>D=A\<close>, \<open>(X)\<close> no real
  instruction stands before the first declaration, its count is 0, and \<open>X\<close> resolves to 1,
  the count at the second declaration.
\<close>

theorem duplicate_label_counterexample:
  "is_label (sanitizeasm [''(X)'', ''D=A'', ''(X)''] ! 0)
   \<and> butlast (tl (sanitizeasm [''(X)'', ''D=A'', ''(X)''] ! 0)) = ''X''
   \<and> format016b (int (length (instructions (take 0 (sanitizeasm [''(X)'', ''D=A'', ''(X)'']))))) = ''0000000000000000''
   \<and> map_sum id (\<lambda>st. (lines st, fst (resolve st ''X''))) (symboltable_init [''(X)'', ''D=A'', ''(X)''])
        = Inr ([''D=A''], ''0000000000000001'')"
  by (simp add: sanitize_XX is_label_def instructions_def symboltable_init_def inittable_def
        resolve_def format_eval)

section \<open>Variables\<close>

lemma symboltable_init_used: "symboltable_init raw = Inr st0 \<Longrightarrow> used st0 = 15"
  using symboltable_init_result [of raw] by auto

lemma resolve_new_after_init:
  assumes init: "symboltable_init raw = Inr st0"
    and new: "label \<notin> dom (table (resolves st0 names))"
  shows "resolve (resolves st0 names) label =
           (format016b (16 + int (card (set names - dom (table st0)))),
            (resolves st0 names)
              \<lparr>used := 16 + int (card (set names - dom (table st0))),
               table := (table (resolves st0 names))
                 (label \<mapsto> format016b (16 + int (card (set names - dom (table st0)))))\<rparr>)"
    and "fst (resolve (resolves (snd (resolve (resolves st0 names) label)) later) label)
           = format016b (16 + int (card (set names - dom (table st0))))"
    and "(length (format016b (16 + int (card (set names - dom (table st0))))) = 16)
           = (card (set names - dom (table st0)) < 65520)"
proof -
  let ?n = "16 + int (card (set names - dom (table st0)))"
  have u: "used (resolves st0 names) + 1 = ?n"
    by (simp add: resolves_used symboltable_init_used [OF init])
  from new have "table (resolves st0 names) label = None" by auto
  from resolve_absent [OF this] u
  show r: "resolve (resolves st0 names) label =
           (format016b ?n,
            (resolves st0 names)\<lparr>used := ?n,
               table := (table (resolves st0 names))(label \<mapsto> format016b ?n)\<rparr>)"
    by simp
  from resolve_idempotent [of "resolves st0 names" label later] r
  show "fst (resolve (resolves (snd (resolve (resolves st0 names) label)) later) label) = format016b ?n"
    by simp
  have "(length (format016b ?n) = 16) = (?n < 65536)"
    by (rule format016b_nonneg(4)) simp
  then show "(length (format016b ?n) = 16) = (card (set names - dom (table st0)) < 65520)"
    by auto
qed

text \<open>
  C4. On the table a source was built into, after \<open>resolve\<close> has been called for any
  list of names, \<open>resolve\<close> on a name absent from the table returns the address 16 plus
  the number of distinct names, absent at construction, that were resolved before it (16
  for the first, 17 for the second, and so on), sets \<open>used\<close> to that address and stores
  the mapping; after any further calls, \<open>resolve\<close> of the same name returns the same
  address. The address has 16 characters as long as fewer than 65520 variables came
  before it.
\<close>

theorem resolve_new_variable:
  assumes "symboltable_init raw = Inr st0"
    and "label \<notin> dom (table (resolves st0 names))"
  shows "resolve (resolves st0 names) label =
           (format016b (16 + int (card (set names - dom (table st0)))),
            (resolves st0 names)
              \<lparr>used := 16 + int (card (set names - dom (table st0))),
               table := (table (resolves st0 names))
                 (label \<mapsto> format016b (16 + int (card (set names - dom (table st0)))))\<rparr>)
       \<and> fst (resolve (resolves (snd (resolve (resolves st0 names) label)) later) label)
           = format016b (16 + int (card (set names - dom (table st0))))
       \<and> (length (format016b (16 + int (card (set names - dom (table st0))))) = 16)
           = (card (set names - dom (table st0)) < 65520)"
  using resolve_new_after_init [OF assms] by simp

lemma init_empty: "symboltable_init [] = Inr \<lparr>lines = [], table = seed_table, used = 15\<rparr>"
  by (simp add: symboltable_init_def sanitizeasm_def inittable_def)

lemma card_new_i: "card (set [''i''] - dom seed_table) = 1"
proof -
  have "set [''i''] - dom seed_table = {''i''}"
    using seed_lookups(3) by auto
  then show ?thesis by simp
qed

theorem resolve_new_variable_witness:
  "symboltable_init [] = Inr \<lparr>lines = [], table = seed_table, used = 15\<rparr>
   \<and> ''i'' \<notin> dom (table (resolves \<lparr>lines = [], table = seed_table, used = 15\<rparr> []))
   \<and> fst (resolve (resolves \<lparr>lines = [], table = seed_table, used = 15\<rparr> []) ''i'')
       = ''0000000000010000''
   \<and> ''sum'' \<notin> dom (table (resolves \<lparr>lines = [], table = seed_table, used = 15\<rparr> [''i'']))
   \<and> fst (resolve (resolves \<lparr>lines = [], table = seed_table, used = 15\<rparr> [''i'']) ''sum'')
       = ''0000000000010001''
   \<and> fst (resolve (resolves (snd (resolve (resolves \<lparr>lines = [], table = seed_table, used = 15\<rparr>
         [''i'']) ''sum'')) [''i'', ''R0'']) ''sum'') = ''0000000000010001''"
proof -
  let ?st0 = "\<lparr>lines = [], table = seed_table, used = 15\<rparr>"
  have i: "''i'' \<notin> dom (table (resolves ?st0 []))"
    by (simp add: domIff seed_lookups)
  have s: "''sum'' \<notin> dom (table (resolves ?st0 [''i'']))"
    by (simp only: resolves_dom) (simp add: domIff seed_lookups)
  from resolve_new_variable [OF init_empty i]
  have a: "fst (resolve (resolves ?st0 []) ''i'') = ''0000000000010000''"
    by (simp add: format_eval)
  have n: "format016b (16 + int (card (set [''i''] - dom (table ?st0)))) = ''0000000000010001''"
    using card_new_i by (simp add: format_eval)
  note th = resolve_new_variable [OF init_empty s, of "[''i'', ''R0'']", unfolded n]
  from th [THEN conjunct1]
  have b: "fst (resolve (resolves ?st0 [''i'']) ''sum'') = ''0000000000010001''"
    by (simp only: fst_conv)
  note c = th [THEN conjunct2, THEN conjunct1]
  from init_empty i s a b c show ?thesis by (intro conjI)
qed

section \<open>Addresses in the table\<close>

lemma format016b_inj_nonneg:
  "0 \<le> m \<Longrightarrow> 0 \<le> n \<Longrightarrow> format016b m = format016b n \<Longrightarrow> m = n"
proof -
  assume m: "0 \<le> m" and n: "0 \<le> n" and eq: "format016b m = format016b n"
  have "m = int (bin_value (format016b m))" using m by (rule format016b_nonneg(2) [symmetric])
  also have "\<dots> = int (bin_value (format016b n))" by (simp only: eq)
  also have "\<dots> = n" using n by (rule format016b_nonneg(2))
  finally show ?thesis .
qed

lemma resolves_used_mono: "used st \<le> used (resolves st names)"
  by (simp add: resolves_used)

lemma resolves_snoc: "resolves st (xs @ [x]) = snd (resolve (resolves st xs) x)"
  by (simp add: resolves_append)

lemma resolves_new_bound:
  "k \<in> dom (table (resolves st names)) \<Longrightarrow> k \<notin> dom (table st) \<Longrightarrow>
     \<exists>m. table (resolves st names) k = Some (format016b m)
        \<and> used st < m \<and> m \<le> used (resolves st names)"
proof (induction names rule: rev_induct)
  case Nil
  then show ?case by simp
next
  case (snoc x xs)
  let ?st' = "resolves st xs"
  show ?case
  proof (cases "table ?st' x")
    case (Some v)
    then have "resolves st (xs @ [x]) = ?st'"
      by (simp add: resolves_snoc resolve_present)
    with snoc show ?thesis by simp
  next
    case None
    then have r: "resolves st (xs @ [x])
        = ?st'\<lparr>used := used ?st' + 1, table := (table ?st')(x \<mapsto> format016b (used ?st' + 1))\<rparr>"
      by (simp add: resolves_snoc resolve_absent)
    show ?thesis
    proof (cases "k = x")
      case True
      have "used st < used ?st' + 1" using resolves_used_mono [of st xs] by simp
      with True r show ?thesis by auto
    next
      case False
      with snoc.prems r have "k \<in> dom (table ?st')" by auto
      from snoc.IH [OF this snoc.prems(2)] False r show ?thesis by auto
    qed
  qed
qed

lemma resolves_new_distinct:
  "0 \<le> used st \<Longrightarrow> a \<in> dom (table (resolves st names)) \<Longrightarrow> a \<notin> dom (table st) \<Longrightarrow>
   b \<in> dom (table (resolves st names)) \<Longrightarrow> b \<notin> dom (table st) \<Longrightarrow> a \<noteq> b \<Longrightarrow>
     table (resolves st names) a \<noteq> table (resolves st names) b"
proof (induction names rule: rev_induct)
  case Nil
  then show ?case by simp
next
  case (snoc x xs)
  let ?st' = "resolves st xs"
  show ?case
  proof (cases "table ?st' x")
    case (Some v)
    then have "resolves st (xs @ [x]) = ?st'"
      by (simp add: resolves_snoc resolve_present)
    with snoc show ?thesis by simp
  next
    case None
    then have r: "resolves st (xs @ [x])
        = ?st'\<lparr>used := used ?st' + 1, table := (table ?st')(x \<mapsto> format016b (used ?st' + 1))\<rparr>"
      by (simp add: resolves_snoc resolve_absent)
    have fresh: "table ?st' k \<noteq> Some (format016b (used ?st' + 1))"
      if k: "k \<in> dom (table ?st')" "k \<notin> dom (table st)" for k
    proof -
      from resolves_new_bound [OF k] obtain m
        where m: "table ?st' k = Some (format016b m)" "used st < m" "m \<le> used ?st'"
        by blast
      with snoc.prems(1) have "0 \<le> m" "0 \<le> used ?st' + 1" "m \<noteq> used ?st' + 1" by auto
      with format016b_inj_nonneg have "format016b m \<noteq> format016b (used ?st' + 1)" by blast
      with m(1) show ?thesis by simp
    qed
    show ?thesis
    proof (cases "a = x")
      case True
      with snoc.prems r have "b \<in> dom (table ?st')" "b \<noteq> x" by auto
      with fresh [OF this(1) snoc.prems(5)] True r show ?thesis by auto
    next
      case False
      with snoc.prems r have a: "a \<in> dom (table ?st')" by auto
      show ?thesis
      proof (cases "b = x")
        case True
        with fresh [OF a snoc.prems(3)] False r show ?thesis by auto
      next
        case bx: False
        with snoc.prems r have "b \<in> dom (table ?st')" by auto
        from snoc.IH [OF snoc.prems(1) a snoc.prems(3) this snoc.prems(5,6)] False bx r
        show ?thesis by simp
      qed
    qed
  qed
qed

text \<open>
  C5, as amended. On the table a source was built into, after any list of \<open>resolve\<close>
  calls: an entry of the table is never changed by later calls, so a name keeps the one
  address it has; a name that has been resolved is in the table with the address
  returned; and two distinct names that were absent at construction and entered by
  \<open>resolve\<close> have distinct addresses.
\<close>

theorem table_stable_variables_distinct:
  assumes "symboltable_init raw = Inr st0"
  shows "(table (resolves st0 names) k = Some v
            \<longrightarrow> table (resolves (resolves st0 names) later) k = Some v)
       \<and> table (snd (resolve (resolves st0 names) k)) k = Some (fst (resolve (resolves st0 names) k))
       \<and> (a \<in> set names \<and> b \<in> set names \<and> a \<notin> dom (table st0) \<and> b \<notin> dom (table st0) \<and> a \<noteq> b
            \<longrightarrow> table (resolves st0 names) a \<noteq> table (resolves st0 names) b)"
proof (intro conjI impI)
  assume "table (resolves st0 names) k = Some v"
  then show "table (resolves (resolves st0 names) later) k = Some v"
    by (rule resolves_keeps)
next
  show "table (snd (resolve (resolves st0 names) k)) k = Some (fst (resolve (resolves st0 names) k))"
    by (rule resolve_stores)
next
  assume h: "a \<in> set names \<and> b \<in> set names \<and> a \<notin> dom (table st0) \<and> b \<notin> dom (table st0) \<and> a \<noteq> b"
  from assms have u: "0 \<le> used st0" by (simp add: symboltable_init_used)
  from h have "a \<in> dom (table (resolves st0 names))" "b \<in> dom (table (resolves st0 names))"
    by (simp_all add: resolves_dom)
  with u h show "table (resolves st0 names) a \<noteq> table (resolves st0 names) b"
    by (intro resolves_new_distinct) simp_all
qed

theorem table_stable_variables_distinct_witness:
  "symboltable_init [] = Inr \<lparr>lines = [], table = seed_table, used = 15\<rparr>
   \<and> table (resolves \<lparr>lines = [], table = seed_table, used = 15\<rparr> [''i'', ''sum'']) ''i''
       = Some ''0000000000010000''
   \<and> table (resolves (resolves \<lparr>lines = [], table = seed_table, used = 15\<rparr> [''i'', ''sum''])
        [''sum'', ''R0'', ''i'']) ''i'' = Some ''0000000000010000''
   \<and> ''i'' \<in> set [''i'', ''sum''] \<and> ''sum'' \<in> set [''i'', ''sum'']
   \<and> ''i'' \<notin> dom seed_table \<and> ''sum'' \<notin> dom seed_table \<and> ''i'' \<noteq> ''sum''
   \<and> table (resolves \<lparr>lines = [], table = seed_table, used = 15\<rparr> [''i'', ''sum'']) ''i''
       \<noteq> table (resolves \<lparr>lines = [], table = seed_table, used = 15\<rparr> [''i'', ''sum'']) ''sum''"
proof -
  let ?st0 = "\<lparr>lines = [], table = seed_table, used = 15\<rparr>"
  note th = table_stable_variables_distinct [OF init_empty,
      of "[''i'', ''sum'']" "''i''" "''0000000000010000''" "[''sum'', ''R0'', ''i'']" "''i''" "''sum''"]
  have t: "table (resolves ?st0 [''i'', ''sum'']) ''i'' = Some ''0000000000010000''"
    by (simp add: resolve_def Let_def seed_lookups format_eval)
  have m: "''i'' \<in> set [''i'', ''sum'']" "''sum'' \<in> set [''i'', ''sum'']" "''i'' \<noteq> ''sum''"
    by simp_all
  have d: "''i'' \<notin> dom seed_table" "''sum'' \<notin> dom seed_table"
    by (simp_all add: domIff seed_lookups)
  from th [THEN conjunct1] t
  have 1: "table (resolves (resolves ?st0 [''i'', ''sum'']) [''sum'', ''R0'', ''i'']) ''i''
             = Some ''0000000000010000''"
    by (simp only:)
  from th [THEN conjunct2, THEN conjunct2] m d
  have 2: "table (resolves ?st0 [''i'', ''sum'']) ''i'' \<noteq> table (resolves ?st0 [''i'', ''sum'']) ''sum''"
    by (simp del: resolves.simps)
  from init_empty t 1 m d 2 show ?thesis by (intro conjI)
qed

text \<open>
  The claim as stated fails after seeding: the distinct names \<open>R0\<close> and \<open>SP\<close> have the
  same address 0.
\<close>

theorem shared_address_counterexample:
  "map_sum id (\<lambda>st. (table st ''R0'', table st ''SP'')) (symboltable_init [])
     = Inr (Some ''0000000000000000'', Some ''0000000000000000'')
   \<and> ''R0'' \<noteq> ''SP''"
  by (simp add: init_empty seed_lookups)

section \<open>Lines that are not instructions, and errors\<close>

text \<open>
  A line of the shape of a label yields no instruction and no error. \<open>ParseError\<close> comes
  from the last branch of \<open>subclass\<close> only: for a line that is not empty, does not start
  with \<open>@\<close>, is not of the shape of a label and in which the grammar finds no
  computation. An address instruction whose operand is not a number, without a symbol
  table, raises \<open>TypeError\<close>.
\<close>

lemma re_line_paren:
  "re_line (CHR ''('' # rest) = \<lparr>group2 = None, group3 = [], group5 = None\<rparr>"
  by (simp add: re_line_def re_dest_def re_comp_def)

lemma label_line_silent:
  assumes "ln \<noteq> []" and "hd ln = CHR ''(''" and "last ln = CHR '')''"
  shows "subclass_line ln loc symbolics = Inr ((None, []), symbolics)"
proof -
  from assms(1,2) obtain rest where ln: "ln = CHR ''('' # rest" by (cases ln) auto
  have "code_parse ln = Inr (''000'', None, ''000'')"
    unfolding ln by (simp add: code_parse_def re_line_paren getitem_None)
  with assms show ?thesis by (simp add: subclass_line_def)
qed

lemma parse_error_only:
  assumes "subclass_line ln loc symbolics = Inl (ParseError l n)"
  shows "ln \<noteq> [] \<and> hd ln \<noteq> CHR ''@'' \<and> \<not> (hd ln = CHR ''('' \<and> last ln = CHR '')'')
         \<and> group3 (re_line ln) = [] \<and> l = ln \<and> n = loc"
proof -
  obtain dest c jmp where p: "code_parse ln = Inr (dest, c, jmp)"
    and c: "(c = None) = (group3 (re_line ln) = [])"
      "(case c of None \<Rightarrow> True | Some b \<Rightarrow> length b = 10)"
    using code_parse_result [of ln] by blast
  from c(2) have nonempty: "c \<noteq> Some []" by (cases c) auto
  from assms p nonempty c(1) show ?thesis
    by (cases c)
       (auto simp: subclass_line_def address_parse_def split: if_splits sum.splits option.splits prod.splits)
qed

lemma no_table_TypeError:
  "py_int operand = None \<Longrightarrow> subclass_line (CHR ''@'' # operand) loc None = Inl TypeError"
  by (simp add: subclass_address address_parse_def)

text \<open>
  C6. On the empty line \<open>subclass\<close> does not reach its branch \<open>elif line == ''\<close>: the first
  test, \<open>line[0] == "@"\<close>, raises \<open>IndexError\<close>.
\<close>

theorem empty_line_raises: "subclass_line [] loc symbolics = Inl IndexError"
  by (simp add: parse_defs)

text \<open>
  C7. For the address instruction \<open>@foo\<close> without a symbol table the encoder raises
  \<open>TypeError\<close>, from the call of the constructor of \<open>ParseError\<close>, and not \<open>ParseError\<close>.
\<close>

theorem no_table_raises_TypeError: "parseline_init ''@foo'' loc None = Inl TypeError"
  by (simp add: parseline_init_def parse_defs address_parse_def py_int_foo)

end
